theory Spec2Isabelle
  imports Main "HOL-Library.Multiset"
begin

section \<open>Values, records and files\<close>

text \<open>
  The annotation tool is a script that is executed from top to bottom on every user
  interaction, over a session state that survives between executions. The values it handles
  come from JSON files: strings, integers and null are modelled (sample ids are strings or
  integers, the anomaly label is 0 or 1); on these, equality in HOL is Python's \<open>==\<close>.
\<close>

datatype pyval = PNone | PInt int | PStr string

fun truthy :: "pyval \<Rightarrow> bool" where
  "truthy PNone = False"
| "truthy (PInt i) = (i \<noteq> 0)"
| "truthy (PStr s) = (s \<noteq> [])"

datatype py_error =
  FileNotFoundError | JSONDecodeError | OSError | ValueError | IndexError | StreamlitAPIException

text \<open>
  A catalog entry. The script reads \<open>s["id"]\<close>, \<open>s["image"]\<close>, \<open>s["vlm_output"]\<close> and
  \<open>s.get("anomaly_label", 0)\<close>: the label is the only key that may be absent.
\<close>

record sample =
  s_id :: pyval
  s_image :: string
  s_vlm_output :: string
  s_anomaly_label :: "pyval option"

text \<open>
  An annotation as the save handler writes it: field \<open>a_k\<close> is the entry \<open>k\<close> of the dict.
  The four answers are JSON values, since a loaded record may hold anything there.
\<close>

record annotation =
  a_sample_id :: pyval
  a_annotator_id :: string
  a_anomaly_presence :: pyval
  a_type_correctness :: pyval
  a_localization_score :: pyval
  a_grounded_reasoning :: pyval
  a_timestamp :: string

text \<open>
  A file holds either a complete JSON document (a list of records) or a text that is not one:
  \<open>Partial xs\<close> is a file whose writing stopped after the records \<open>xs\<close>. The text that
  \<open>json.dump\<close> produces for a list starts with an opening bracket and ends with the closing
  one, so no proper prefix of it parses.
\<close>

datatype 'a json_file = Document "'a list" | Partial "'a list"

type_synonym store = "string \<Rightarrow> annotation json_file option"

subsection \<open>Python containers\<close>

text \<open>
  A dict is an association list in insertion order with distinct keys: assigning to a key
  that is present replaces its value in place, a new key goes to the end.
\<close>

type_synonym ('k, 'v) dict = "('k \<times> 'v) list"

fun dict_get :: "('k, 'v) dict \<Rightarrow> 'k \<Rightarrow> 'v option" where
  "dict_get [] k = None"
| "dict_get ((k', v) # d) k = (if k' = k then Some v else dict_get d k)"

fun dict_set :: "'k \<Rightarrow> 'v \<Rightarrow> ('k, 'v) dict \<Rightarrow> ('k, 'v) dict" where
  "dict_set k v [] = [(k, v)]"
| "dict_set k v ((k', v') # d) = (if k' = k then (k, v) # d else (k', v') # dict_set k v d)"

definition dict_values :: "('k, 'v) dict \<Rightarrow> 'v list" where
  "dict_values d = map snd d"

definition dict_keys :: "('k, 'v) dict \<Rightarrow> 'k list" where
  "dict_keys d = map fst d"

text \<open>\<open>xs.index(v)\<close>: the first position of \<open>v\<close>; \<open>None\<close> stands for the ValueError.\<close>

fun list_index :: "'a list \<Rightarrow> 'a \<Rightarrow> nat option" where
  "list_index [] v = None"
| "list_index (x # xs) v =
     (if x = v then Some 0 else (case list_index xs v of None \<Rightarrow> None | Some i \<Rightarrow> Some (Suc i)))"

text \<open>\<open>xs[i]\<close> with a Python integer: a negative index counts from the end.\<close>

definition py_index :: "'a list \<Rightarrow> int \<Rightarrow> py_error + 'a" where
  "py_index xs i =
     (let j = (if i < 0 then i + int (length xs) else i)
      in if j < 0 \<or> int (length xs) \<le> j then Inl IndexError else Inr (xs ! nat j))"

text \<open>
  \<open>random.shuffle\<close>: for \<open>i\<close> from \<open>len(x) - 1\<close> down to 1, swap \<open>x[i]\<close> with \<open>x[j]\<close>,
  \<open>j\<close> drawn below \<open>i + 1\<close>. The generator is a parameter: \<open>rng i\<close> is the number drawn
  at position \<open>i\<close>, reduced below \<open>i + 1\<close>.
\<close>

definition swap :: "nat \<Rightarrow> nat \<Rightarrow> 'a list \<Rightarrow> 'a list" where
  "swap i j xs = xs[i := xs ! j, j := xs ! i]"

fun shuffle_down :: "(nat \<Rightarrow> nat) \<Rightarrow> nat \<Rightarrow> 'a list \<Rightarrow> 'a list" where
  "shuffle_down rng 0 xs = xs"
| "shuffle_down rng (Suc i) xs = shuffle_down rng i (swap (Suc i) (rng (Suc i) mod (Suc (Suc i))) xs)"

definition shuffle :: "(nat \<Rightarrow> nat) \<Rightarrow> 'a list \<Rightarrow> 'a list" where
  "shuffle rng xs = shuffle_down rng (length xs - 1) xs"

text \<open>Sequencing of steps that may raise.\<close>

definition then_do :: "py_error + 'a \<Rightarrow> ('a \<Rightarrow> py_error + 'b) \<Rightarrow> py_error + 'b" where
  "then_do r f = (case r of Inl e \<Rightarrow> Inl e | Inr x \<Rightarrow> f x)"

section \<open>Utilities\<close>

definition ANNOTATIONS_DIR :: string where
  "ANNOTATIONS_DIR = ''annotations''"

definition load_samples :: "sample json_file option \<Rightarrow> py_error + sample list" where
  "load_samples f =
     (case f of None \<Rightarrow> Inl FileNotFoundError
      | Some (Partial xs) \<Rightarrow> Inl JSONDecodeError
      | Some (Document xs) \<Rightarrow> Inr xs)"

definition get_annotation_path :: "string \<Rightarrow> string" where
  "get_annotation_path annotator = ANNOTATIONS_DIR @ ''/'' @ annotator @ ''.json''"

definition load_annotations :: "store \<Rightarrow> string \<Rightarrow> py_error + annotation list" where
  "load_annotations st annotator =
     (case st (get_annotation_path annotator) of
        None \<Rightarrow> Inr []
      | Some (Partial xs) \<Rightarrow> Inl JSONDecodeError
      | Some (Document xs) \<Rightarrow> Inr xs)"

text \<open>
  \<open>save_all_annotations\<close> makes the directory, opens the file for writing, which empties it,
  and dumps the records into it. Where the operating system fails is a parameter: before the
  file is opened nothing has changed; once it is open the old contents are gone, and a dump
  that fails after \<open>k\<close> records leaves those behind.
\<close>

datatype fault = NoFault | MakedirsFails | OpenFails | DumpFails nat

definition save_all_annotations ::
  "fault \<Rightarrow> string \<Rightarrow> annotation list \<Rightarrow> store \<Rightarrow> py_error option \<times> store" where
  "save_all_annotations flt annotator annotations st =
     (let path = get_annotation_path annotator in
      case flt of
        MakedirsFails \<Rightarrow> (Some OSError, st)
      | OpenFails \<Rightarrow> (Some OSError, st)
      | DumpFails k \<Rightarrow> (Some OSError, st(path \<mapsto> Partial (take k annotations)))
      | NoFault \<Rightarrow> (None, st(path \<mapsto> Document annotations)))"

section \<open>Session state\<close>

record session =
  annotator_id :: string
  sample_order :: "sample list"
  total_samples :: nat
  current_idx :: int
  annotations_buffer :: "(pyval, annotation) dict"
  review_mode :: bool

text \<open>
  The session state is empty (\<open>Gate\<close>: the annotator is still to be chosen), holds the
  annotator only, or holds every key of an initialized session.
\<close>

datatype session_state = Gate | Selected string | Initialized session

record world =
  files :: store
  ss :: session_state

text \<open>What the surroundings give one execution of the script, and what the user did.\<close>

record env =
  samples_file :: "sample json_file option"
  rng :: "nat \<Rightarrow> nat"
  utcnow :: string
  disk_fault :: fault
  render_ok :: "sample \<Rightarrow> bool"

datatype click =
  NoClick | ClickContinue | ClickReviewAll | ClickReviewItem nat | ClickFinalSubmit
  | ClickBack | ClickSave

record ui =
  click :: click
  typed_annotator :: "string option"
  pick_presence :: "pyval option"
  pick_type :: "pyval option"
  pick_localization :: "int option"
  pick_grounded :: "int option"

text \<open>
  How an execution ends: \<open>st.rerun()\<close>, \<open>st.stop()\<close>, the end of the script, or an
  exception. Assignments to the session state made before an exception stay.
\<close>

datatype ending = Rerun | Stop | Finished | Raised py_error

subsection \<open>Widgets\<close>

text \<open>
  \<open>st.radio(label, options, index)\<close> returns the option the user picked, the one at
  \<open>index\<close> while the user has not picked; only the options offered can be picked.
  \<open>st.slider(label, lo, hi, value)\<close> refuses a start value that is not a number; it
  starts at \<open>lo\<close> when the value is None, and widens its range to take in an integer start
  value outside \<open>lo..hi\<close>. It returns a position within its range, the start value while
  the user has not moved it.
\<close>

definition radio :: "pyval list \<Rightarrow> nat \<Rightarrow> pyval option \<Rightarrow> pyval" where
  "radio options index pick =
     (case pick of None \<Rightarrow> options ! index
      | Some v \<Rightarrow> if v \<in> set options then v else options ! index)"

definition slider_position :: "int \<Rightarrow> int \<Rightarrow> int \<Rightarrow> int option \<Rightarrow> int" where
  "slider_position lo hi start pick =
     (case pick of None \<Rightarrow> start
      | Some p \<Rightarrow> if p < lo \<or> hi < p then start else p)"

definition slider :: "int \<Rightarrow> int \<Rightarrow> pyval \<Rightarrow> int option \<Rightarrow> py_error + pyval" where
  "slider lo hi val pick =
     (case val of
        PStr t \<Rightarrow> Inl StreamlitAPIException
      | PNone \<Rightarrow> Inr (PInt (slider_position lo hi lo pick))
      | PInt v \<Rightarrow> Inr (PInt (slider_position (min lo v) (max hi v) v pick)))"

text \<open>
  A value is text; an integer lies within, or outside, a scale. A stored integer outside
  the scale is what makes a slider widen its range.
\<close>

fun is_text :: "pyval \<Rightarrow> bool" where
  "is_text (PStr t) = True"
| "is_text v = False"



definition presence_options :: "pyval list" where
  "presence_options = [PStr ''yes'', PStr ''no'', PStr ''unsure'']"

definition type_options :: "pyval list" where
  "type_options = [PStr ''correct'', PStr ''partial'', PStr ''incorrect'']"

text \<open>\<open>existing.get(k, default)\<close>, where \<open>existing\<close> is the buffered record or \<open>{}\<close>.\<close>

definition existing_get :: "annotation option \<Rightarrow> (annotation \<Rightarrow> pyval) \<Rightarrow> pyval \<Rightarrow> pyval" where
  "existing_get existing field dflt = (case existing of None \<Rightarrow> dflt | Some a \<Rightarrow> field a)"

definition index_of :: "pyval list \<Rightarrow> pyval \<Rightarrow> py_error + nat" where
  "index_of options v = (case list_index options v of None \<Rightarrow> Inl ValueError | Some i \<Rightarrow> Inr i)"

text \<open>
  The four form controls, in the script's order; the result is the tuple
  (anomaly_presence, type_correctness, localization_score, grounded_reasoning).
\<close>

definition annotation_form ::
  "ui \<Rightarrow> bool \<Rightarrow> annotation option \<Rightarrow> py_error + (pyval \<times> pyval \<times> pyval \<times> pyval)" where
  "annotation_form u anomaly existing =
     then_do (index_of presence_options (existing_get existing a_anomaly_presence (PStr ''yes'')))
       (\<lambda>i. let anomaly_presence = radio presence_options i (pick_presence u) in
     then_do (if anomaly
              then then_do (index_of type_options
                              (existing_get existing a_type_correctness (PStr ''correct'')))
                     (\<lambda>j. Inr (radio type_options j (pick_type u)))
              else Inr (PStr ''N/A''))
       (\<lambda>type_correctness.
     then_do (if anomaly
              then slider 1 5 (existing_get existing a_localization_score (PInt 3))
                     (pick_localization u)
              else Inr (PStr ''N/A''))
       (\<lambda>localization_score.
     then_do (slider 1 5 (existing_get existing a_grounded_reasoning (PInt 3)) (pick_grounded u))
       (\<lambda>grounded_reasoning.
     Inr (anomaly_presence, type_correctness, localization_score, grounded_reasoning)))))"

section \<open>The script\<close>

subsection \<open>Annotator selection gate\<close>

definition gate :: "ui \<Rightarrow> world \<Rightarrow> ending \<times> world" where
  "gate u w =
     (if click u = ClickContinue then
        (case typed_annotator u of
           None \<Rightarrow> (Stop, w)
         | Some a \<Rightarrow> if a = [] then (Stop, w) else (Rerun, w\<lparr>ss := Selected a\<rparr>))
      else (Stop, w))"

subsection \<open>Session initialization\<close>

definition initialize :: "env \<Rightarrow> store \<Rightarrow> string \<Rightarrow> py_error + session" where
  "initialize e st annotator =
     then_do (load_samples (samples_file e)) (\<lambda>samples.
     then_do (load_annotations st annotator) (\<lambda>existing_annotations.
       let annotated_ids = map a_sample_id existing_annotations;
           remaining = filter (\<lambda>s. s_id s \<notin> set annotated_ids) samples
       in Inr \<lparr>annotator_id = annotator,
               sample_order = shuffle (rng e) remaining,
               total_samples = length samples,
               current_idx = 0,
               annotations_buffer =
                 foldl (\<lambda>d a. dict_set (a_sample_id a) a d) [] existing_annotations,
               review_mode = False\<rparr>))"

subsection \<open>Progress bar and the way into review\<close>

text \<open>
  \<open>st.progress\<close> takes a fraction of at most 1.0: it raises when more is done than the
  total, the total being positive.
\<close>

definition progress_bar :: "session \<Rightarrow> py_error option" where
  "progress_bar s =
     (let done_count = length (annotations_buffer s); total = total_samples s
      in if 0 < total \<and> total < done_count then Some StreamlitAPIException else None)"

definition review_all_offered :: "session \<Rightarrow> bool" where
  "review_all_offered s =
     (length (annotations_buffer s) = length (sample_order s) \<and> \<not> review_mode s)"

subsection \<open>Review mode\<close>

definition review_page :: "env \<Rightarrow> ui \<Rightarrow> store \<Rightarrow> session \<Rightarrow> ending \<times> world" where
  "review_page e u st s =
     (case click u of
        ClickReviewItem i \<Rightarrow>
          if i < length (sample_order s)
          then (Rerun, \<lparr>files = st,
                        ss = Initialized (s\<lparr>current_idx := int i, review_mode := False\<rparr>)\<rparr>)
          else (Stop, \<lparr>files = st, ss = Initialized s\<rparr>)
      | ClickFinalSubmit \<Rightarrow>
          (case save_all_annotations (disk_fault e) (annotator_id s)
                  (dict_values (annotations_buffer s)) st of
             (Some err, st') \<Rightarrow> (Raised err, \<lparr>files = st', ss = Initialized s\<rparr>)
           | (None, st') \<Rightarrow> (Stop, \<lparr>files = st', ss = Gate\<rparr>))
      | _ \<Rightarrow> (Stop, \<lparr>files = st, ss = Initialized s\<rparr>))"

subsection \<open>Annotation mode\<close>

text \<open>The body of the Save and continue handler, on the values the form returned.\<close>

definition save_and_continue ::
  "string \<Rightarrow> sample \<Rightarrow> int \<Rightarrow> pyval \<times> pyval \<times> pyval \<times> pyval \<Rightarrow> session \<Rightarrow> session" where
  "save_and_continue now smp idx answer s =
     (case answer of (anomaly_presence, type_correctness, localization_score, grounded_reasoning) \<Rightarrow>
        let s1 = s\<lparr>annotations_buffer :=
                     dict_set (s_id smp)
                       \<lparr>a_sample_id = s_id smp,
                        a_annotator_id = annotator_id s,
                        a_anomaly_presence = anomaly_presence,
                        a_type_correctness = type_correctness,
                        a_localization_score = localization_score,
                        a_grounded_reasoning = grounded_reasoning,
                        a_timestamp = now\<rparr>
                       (annotations_buffer s)\<rparr>
        in if idx < int (length (sample_order s)) - 1
           then s1\<lparr>current_idx := current_idx s1 + 1\<rparr>
           else s1\<lparr>review_mode := True\<rparr>)"

definition cursor :: "session \<Rightarrow> int" where
  "cursor s = min (current_idx s) (int (length (sample_order s)) - 1)"

definition is_anomaly :: "sample \<Rightarrow> bool" where
  "is_anomaly smp = truthy (case s_anomaly_label smp of None \<Rightarrow> PInt 0 | Some v \<Rightarrow> v)"

definition annotation_page :: "env \<Rightarrow> ui \<Rightarrow> store \<Rightarrow> session \<Rightarrow> ending \<times> world" where
  "annotation_page e u st s =
     (if sample_order s = [] then (Stop, \<lparr>files = st, ss = Initialized s\<rparr>)
      else
        let idx = cursor s;
            s0 = s\<lparr>current_idx := idx\<rparr>
        in case py_index (sample_order s) idx of
             Inl err \<Rightarrow> (Raised err, \<lparr>files = st, ss = Initialized s0\<rparr>)
           | Inr smp \<Rightarrow>
               if \<not> render_ok e smp then (Raised OSError, \<lparr>files = st, ss = Initialized s0\<rparr>)
               else
                 (case annotation_form u (is_anomaly smp)
                         (dict_get (annotations_buffer s) (s_id smp)) of
                    Inl err \<Rightarrow> (Raised err, \<lparr>files = st, ss = Initialized s0\<rparr>)
                  | Inr answer \<Rightarrow>
                      if click u = ClickBack \<and> 0 < idx
                      then (Rerun, \<lparr>files = st,
                                    ss = Initialized (s0\<lparr>current_idx := current_idx s0 - 1\<rparr>)\<rparr>)
                      else if click u = ClickSave
                      then (Rerun, \<lparr>files = st,
                                    ss = Initialized (save_and_continue (utcnow e) smp idx answer s0)\<rparr>)
                      else (Finished, \<lparr>files = st, ss = Initialized s0\<rparr>)))"

subsection \<open>One execution, and one interaction\<close>

definition page :: "env \<Rightarrow> ui \<Rightarrow> store \<Rightarrow> session \<Rightarrow> ending \<times> world" where
  "page e u st s =
     (case progress_bar s of
        Some err \<Rightarrow> (Raised err, \<lparr>files = st, ss = Initialized s\<rparr>)
      | None \<Rightarrow>
          if review_all_offered s \<and> click u = ClickReviewAll
          then (Rerun, \<lparr>files = st, ss = Initialized (s\<lparr>review_mode := True\<rparr>)\<rparr>)
          else if review_mode s then review_page e u st s
          else annotation_page e u st s)"

definition script :: "env \<Rightarrow> ui \<Rightarrow> world \<Rightarrow> ending \<times> world" where
  "script e u w =
     (case ss w of
        Gate \<Rightarrow> gate u w
      | Selected a \<Rightarrow>
          (case initialize e (files w) a of
             Inl err \<Rightarrow> (Raised err, w)
           | Inr s \<Rightarrow> page e u (files w) s)
      | Initialized s \<Rightarrow> page e u (files w) s)"

text \<open>
  A user interaction executes the script with the click; \<open>st.rerun()\<close> executes it once more
  at once, with no click.
\<close>

definition interact :: "env \<Rightarrow> ui \<Rightarrow> world \<Rightarrow> ending \<times> world" where
  "interact e u w =
     (case script e u w of
        (Rerun, w') \<Rightarrow> script e (u\<lparr>click := NoClick\<rparr>) w'
      | r \<Rightarrow> r)"

fun raised :: "ending \<Rightarrow> bool" where
  "raised (Raised err) = True"
| "raised r = False"

subsection \<open>Observations on a session\<close>

text \<open>The progress display shows \<open>len(annotations_buffer)\<close> of \<open>total_samples\<close>.\<close>

definition completed :: "session \<Rightarrow> nat" where
  "completed s = length (annotations_buffer s)"

text \<open>Every sample of the queue has an answer in the buffer.\<close>

definition all_answered :: "session \<Rightarrow> bool" where
  "all_answered s =
     list_all (\<lambda>x. dict_get (annotations_buffer s) (s_id x) \<noteq> None) (sample_order s)"

text \<open>
  The states a session goes through under a sequence of interactions, from an initialized
  state until the session state is cleared by the final submit.
\<close>

fun session_trace :: "(env \<times> ui) list \<Rightarrow> world \<Rightarrow> session list" where
  "session_trace [] w = (case ss w of Initialized s \<Rightarrow> [s] | _ \<Rightarrow> [])"
| "session_trace ((e, u) # es) w =
     (case ss w of
        Initialized s \<Rightarrow> s # session_trace es (snd (interact e u w))
      | _ \<Rightarrow> [])"

text \<open>
  What holds of a session built over the catalog \<open>C\<close> from annotations of catalog
  samples: the buffer's keys are distinct ids of the catalog, the queue holds catalog
  samples and the total is the size of the catalog.
\<close>

definition session_inv :: "sample list \<Rightarrow> session \<Rightarrow> bool" where
  "session_inv C s =
     (distinct (dict_keys (annotations_buffer s))
      \<and> set (dict_keys (annotations_buffer s)) \<subseteq> s_id ` set C
      \<and> set (sample_order s) \<subseteq> set C
      \<and> total_samples s = length C)"

section \<open>Example data\<close>

text \<open>
  A catalog of three samples, the second without anomaly, and an annotator who has answered
  the second sample in an earlier session.
\<close>

definition ex_s1 :: sample where
  "ex_s1 = \<lparr>s_id = PStr ''S1'', s_image = ''img/1.png'', s_vlm_output = ''out/1.txt'',
            s_anomaly_label = Some (PInt 1)\<rparr>"

definition ex_s2 :: sample where
  "ex_s2 = \<lparr>s_id = PStr ''S2'', s_image = ''img/2.png'', s_vlm_output = ''out/2.txt'',
            s_anomaly_label = Some (PInt 0)\<rparr>"

definition ex_s3 :: sample where
  "ex_s3 = \<lparr>s_id = PStr ''S3'', s_image = ''img/3.png'', s_vlm_output = ''out/3.txt'',
            s_anomaly_label = Some (PInt 1)\<rparr>"

definition ex_catalog :: "sample list" where
  "ex_catalog = [ex_s1, ex_s2, ex_s3]"

definition ex_a2 :: annotation where
  "ex_a2 = \<lparr>a_sample_id = PStr ''S2'', a_annotator_id = ''A1'',
            a_anomaly_presence = PStr ''no'', a_type_correctness = PStr ''N/A'',
            a_localization_score = PStr ''N/A'', a_grounded_reasoning = PInt 4,
            a_timestamp = ''2024-05-01T09:30:00''\<rparr>"

definition ex_files :: store where
  "ex_files = [get_annotation_path ''A1'' \<mapsto> Document [ex_a2]]"

definition ex_env :: env where
  "ex_env = \<lparr>samples_file = Some (Document ex_catalog), rng = (\<lambda>i. 0),
             utcnow = ''2024-05-02T10:00:00'', disk_fault = NoFault,
             render_ok = (\<lambda>s. True)\<rparr>"

definition ex_ui :: ui where
  "ex_ui = \<lparr>click = NoClick, typed_annotator = None, pick_presence = None, pick_type = None,
            pick_localization = None, pick_grounded = None\<rparr>"

text \<open>The session built from the example: the queue is S3, S1 and the buffer holds S2.\<close>

definition ex_session :: session where
  "ex_session = \<lparr>annotator_id = ''A1'', sample_order = [ex_s3, ex_s1], total_samples = 3,
                 current_idx = 0, annotations_buffer = [(PStr ''S2'', ex_a2)],
                 review_mode = False\<rparr>"

definition ex_world :: world where
  "ex_world = \<lparr>files = ex_files, ss = Initialized ex_session\<rparr>"

definition ex_a3 :: annotation where
  "ex_a3 = \<lparr>a_sample_id = PStr ''S3'', a_annotator_id = ''A1'',
            a_anomaly_presence = PStr ''yes'', a_type_correctness = PStr ''partial'',
            a_localization_score = PInt 4, a_grounded_reasoning = PInt 5,
            a_timestamp = ''2024-05-02T09:00:00''\<rparr>"

definition ex_world_with :: "sample list \<Rightarrow> int \<Rightarrow> (pyval, annotation) dict \<Rightarrow> world" where
  "ex_world_with queue idx buffer =
     \<lparr>files = ex_files,
      ss = Initialized (ex_session\<lparr>sample_order := queue, current_idx := idx,
                                   annotations_buffer := buffer\<rparr>)\<rparr>"

definition ex_session_with :: "sample list \<Rightarrow> int \<Rightarrow> (pyval, annotation) dict \<Rightarrow> session" where
  "ex_session_with queue idx buffer =
     ex_session\<lparr>sample_order := queue, current_idx := idx, annotations_buffer := buffer\<rparr>"

definition ex_picks :: ui where
  "ex_picks = ex_ui\<lparr>click := ClickSave, pick_presence := Some (PStr ''unsure''),
                     pick_type := Some (PStr ''incorrect''), pick_localization := Some 5,
                     pick_grounded := Some 2\<rparr>"

definition ex_b2 :: annotation where
  "ex_b2 = ex_a2\<lparr>a_type_correctness := PStr ''partial'', a_localization_score := PInt 2\<rparr>"

definition ex_review_world :: world where
  "ex_review_world =
     \<lparr>files = ex_files,
      ss = Initialized (ex_session\<lparr>annotations_buffer := [(PStr ''S2'', ex_a2), (PStr ''S3'', ex_a3)],
                                   review_mode := True\<rparr>)\<rparr>"

definition ex_done_env :: env where
  "ex_done_env = ex_env\<lparr>samples_file := Some (Document [ex_s2])\<rparr>"

definition ex_resume_env :: env where
  "ex_resume_env = ex_env\<lparr>samples_file := Some (Document [ex_s1, ex_s2])\<rparr>"

definition ex_resumed :: session where
  "ex_resumed = \<lparr>annotator_id = ''A1'', sample_order = [ex_s1], total_samples = 2,
                 current_idx = 0, annotations_buffer = [(PStr ''S2'', ex_a2)],
                 review_mode = False\<rparr>"

definition ex_a1 :: annotation where
  "ex_a1 = \<lparr>a_sample_id = PStr ''S1'', a_annotator_id = ''A1'',
            a_anomaly_presence = PStr ''yes'', a_type_correctness = PStr ''correct'',
            a_localization_score = PInt 3, a_grounded_reasoning = PInt 3,
            a_timestamp = ''2024-05-02T10:00:00''\<rparr>"

definition ex_answered :: session where
  "ex_answered = ex_resumed\<lparr>annotations_buffer := [(PStr ''S2'', ex_a2), (PStr ''S1'', ex_a1)]\<rparr>"

text \<open>A buffered record for S3 whose scores lie outside the scale.\<close>

definition ex_a3_wide :: annotation where
  "ex_a3_wide = ex_a3\<lparr>a_localization_score := PInt 9, a_grounded_reasoning := PInt 9\<rparr>"

text \<open>
  A catalog in which two samples share the id D, one without and one with an anomaly, and
  the session after the first of them has been saved with the untouched form.
\<close>

definition ex_d0 :: sample where
  "ex_d0 = \<lparr>s_id = PStr ''D'', s_image = ''img/d0.png'', s_vlm_output = ''out/d0.txt'',
            s_anomaly_label = Some (PInt 0)\<rparr>"

definition ex_d1 :: sample where
  "ex_d1 = \<lparr>s_id = PStr ''D'', s_image = ''img/d1.png'', s_vlm_output = ''out/d1.txt'',
            s_anomaly_label = Some (PInt 1)\<rparr>"

definition ex_dup_env :: env where
  "ex_dup_env = ex_env\<lparr>samples_file := Some (Document [ex_d1, ex_d0])\<rparr>"

definition ex_ad :: annotation where
  "ex_ad = \<lparr>a_sample_id = PStr ''D'', a_annotator_id = ''A1'',
            a_anomaly_presence = PStr ''yes'', a_type_correctness = PStr ''N/A'',
            a_localization_score = PStr ''N/A'', a_grounded_reasoning = PInt 3,
            a_timestamp = ''2024-05-02T10:00:00''\<rparr>"

definition ex_dup_session :: session where
  "ex_dup_session = \<lparr>annotator_id = ''A1'', sample_order = [ex_d0, ex_d1], total_samples = 2,
                     current_idx = 1, annotations_buffer = [(PStr ''D'', ex_ad)],
                     review_mode = False\<rparr>"

text \<open>A catalog that no longer has the samples the stored annotations refer to.\<close>

definition ex_stale_env :: env where
  "ex_stale_env = ex_env\<lparr>samples_file := Some (Document [ex_s1])\<rparr>"

definition ex_stale_files :: store where
  "ex_stale_files = [get_annotation_path ''A1'' \<mapsto> Document [ex_a2, ex_a3]]"

definition ex_stale_session :: session where
  "ex_stale_session = \<lparr>annotator_id = ''A1'', sample_order = [ex_s1], total_samples = 1,
                       current_idx = 0,
                       annotations_buffer = [(PStr ''S2'', ex_a2), (PStr ''S3'', ex_a3)],
                       review_mode = False\<rparr>"

text \<open>A sequence of interactions that ends with the final submit.\<close>

definition ex_clicks :: "(env \<times> ui) list" where
  "ex_clicks = [(ex_env, ex_picks), (ex_env, ex_ui\<lparr>click := ClickBack\<rparr>),
                (ex_env, ex_picks), (ex_env, ex_picks),
                (ex_env, ex_ui\<lparr>click := ClickReviewItem 0\<rparr>),
                (ex_env, ex_picks), (ex_env, ex_picks),
                (ex_env, ex_ui\<lparr>click := ClickFinalSubmit\<rparr>),
                (ex_env, ex_ui\<lparr>click := ClickContinue, typed_annotator := Some ''A2''\<rparr>)]"

section \<open>Containers and the shuffle\<close>

lemma mset_swap_list: "i < length xs \<Longrightarrow> j < length xs \<Longrightarrow> mset (swap i j xs) = mset xs"
  unfolding swap_def by (simp add: mset_swap)

lemma length_swap: "length (swap i j xs) = length xs"
  by (simp add: swap_def)

lemma mset_shuffle_down: "i < length xs \<Longrightarrow> mset (shuffle_down r i xs) = mset xs"
proof (induction i arbitrary: xs)
  case 0
  then show ?case by simp
next
  case (Suc i)
  have j: "r (Suc i) mod Suc (Suc i) < length xs"
    using Suc.prems
    by (meson less_Suc_eq_le less_le_trans mod_less_divisor zero_less_Suc Suc_leI
        order.strict_trans2)
  have "mset (shuffle_down r i (swap (Suc i) (r (Suc i) mod Suc (Suc i)) xs))
        = mset (swap (Suc i) (r (Suc i) mod Suc (Suc i)) xs)"
    using Suc.prems by (intro Suc.IH) (simp add: length_swap)
  then show ?case using Suc.prems j by (simp add: mset_swap_list)
qed

lemma mset_shuffle: "mset (shuffle r xs) = mset xs"
proof (cases xs)
  case Nil
  then show ?thesis by (simp add: shuffle_def)
next
  case (Cons x ys)
  then show ?thesis unfolding shuffle_def by (intro mset_shuffle_down) simp
qed


lemma set_shuffle: "set (shuffle r xs) = set xs"
  using mset_shuffle [of r xs] by (metis set_mset_mset)


lemma ex_paths: "ex_files (get_annotation_path ''A1'') = Some (Document [ex_a2])"
  by (simp add: ex_files_def)

section \<open>Session builder\<close>



section \<open>The annotation page\<close>

lemma dict_get_set: "dict_get (dict_set k v d) k' = (if k' = k then Some v else dict_get d k')"
  by (induction d) auto

lemma length_dict_set:
  "length (dict_set k v d) = (if dict_get d k = None then Suc (length d) else length d)"
  by (induction d) (auto split: if_splits)

lemma script_annotating:
  "ss w = Initialized s \<Longrightarrow> script e u w = page e u (files w) s"
  by (simp add: script_def)

lemma annotation_page_raised:
  assumes "annotation_page e u st s = (r, w')" and "raised r"
  shows "w' = \<lparr>files = st, ss = Initialized (s\<lparr>current_idx := cursor s\<rparr>)\<rparr>"
  using assms
  by (auto simp: annotation_page_def Let_def split: if_splits sum.splits)

lemma annotation_page_save:
  assumes "annotation_page e u st s = (r, w')" and "\<not> raised r" and "click u = ClickSave"
    and "sample_order s \<noteq> []"
  shows "\<exists>smp answer. py_index (sample_order s) (cursor s) = Inr smp \<and> render_ok e smp
           \<and> annotation_form u (is_anomaly smp) (dict_get (annotations_buffer s) (s_id smp)) = Inr answer
           \<and> r = Rerun
           \<and> w' = \<lparr>files = st, ss = Initialized (save_and_continue (utcnow e) smp (cursor s) answer
                       (s\<lparr>current_idx := cursor s\<rparr>))\<rparr>"
  using assms
  by (auto simp: annotation_page_def Let_def split: if_splits sum.splits)

lemma annotation_page_back:
  assumes "annotation_page e u st s = (r, w')" and "\<not> raised r" and "click u = ClickBack"
    and "sample_order s \<noteq> []"
  shows "w' = \<lparr>files = st, ss = Initialized (s\<lparr>current_idx := (if 0 < cursor s then cursor s - 1 else cursor s)\<rparr>)\<rparr>"
  using assms
  by (auto simp: annotation_page_def Let_def split: if_splits sum.splits)

lemma page_annotating:
  assumes "\<not> review_mode s" and "click u \<noteq> ClickReviewAll"
  shows "page e u st s = (case progress_bar s of Some err \<Rightarrow> (Raised err, \<lparr>files = st, ss = Initialized s\<rparr>)
            | None \<Rightarrow> annotation_page e u st s)"
  using assms by (simp add: page_def split: option.splits)

lemmas ex_defs = ex_world_def ex_session_def ex_env_def ex_ui_def ex_s1_def ex_s2_def ex_s3_def
  ex_a2_def ex_a3_def ex_world_with_def ex_session_with_def ex_files_def ex_picks_def ex_b2_def
  ex_a3_wide_def ex_d0_def ex_d1_def ex_dup_env_def ex_ad_def ex_dup_session_def
  ex_stale_env_def ex_stale_files_def ex_stale_session_def

lemmas run_defs = script_def page_def progress_bar_def review_all_offered_def annotation_page_def
  cursor_def py_index_def is_anomaly_def annotation_form_def then_do_def index_of_def
  existing_get_def radio_def slider_def slider_position_def presence_options_def type_options_def save_and_continue_def
  review_page_def

lemma ex_with_ss: "ss (ex_world_with q i b) = Initialized (ex_session_with q i b)"
  by (simp add: ex_world_with_def ex_session_with_def)

lemma ex_with_mode: "\<not> review_mode (ex_session_with q i b)"
  by (simp add: ex_session_with_def ex_session_def)

lemma ex_with_fields:
  "sample_order (ex_session_with q i b) = q" "current_idx (ex_session_with q i b) = i"
  "annotations_buffer (ex_session_with q i b) = b"
  by (simp_all add: ex_session_with_def)

lemma run_pair: "script e u w = (fst (script e u w), snd (script e u w))"
  by simp

lemma ex_save_run:
  "script ex_env (ex_ui\<lparr>click := ClickSave\<rparr>) ex_world =
    (Rerun, \<lparr>files = ex_files, ss = Initialized
       \<lparr>annotator_id = ''A1'', sample_order = [ex_s3, ex_s1], total_samples = 3, current_idx = 1,
        annotations_buffer = [(PStr ''S2'', ex_a2),
          (PStr ''S3'', \<lparr>a_sample_id = PStr ''S3'', a_annotator_id = ''A1'',
             a_anomaly_presence = PStr ''yes'', a_type_correctness = PStr ''correct'',
             a_localization_score = PInt 3, a_grounded_reasoning = PInt 3,
             a_timestamp = ''2024-05-02T10:00:00''\<rparr>)],
        review_mode = False\<rparr>\<rparr>)"
  by (simp add: run_defs ex_defs Let_def)

lemma ex_world_ss: "ss ex_world = Initialized ex_session" by (simp add: ex_world_def)
lemma ex_session_mode: "\<not> review_mode ex_session" by (simp add: ex_session_def)
lemma ex_session_queue: "sample_order ex_session \<noteq> []" by (simp add: ex_session_def)
lemma ex_save_click: "click (ex_ui\<lparr>click := ClickSave\<rparr>) = ClickSave" by simp

text \<open>
  Claim C1. In annotation mode with a non-empty queue, a click on Save and continue that
  the run answers without raising writes the annotation of the current sample into the
  buffer under the sample's id, replacing what was stored under that id and leaving every
  other key as it was; the annotation carries the clock's UTC reading of this run. Then the
  cursor moves on by one when it was below the last position of the queue; otherwise the
  session switches to review.
\<close>

theorem save_and_continue_writes:
  assumes "ss w = Initialized s" and "\<not> review_mode s" and "sample_order s \<noteq> []"
    and "click u = ClickSave" and "script e u w = (r, w')" and "\<not> raised r"
  shows "\<exists>smp answer ann s'.
           py_index (sample_order s) (cursor s) = Inr smp
         \<and> annotation_form u (is_anomaly smp) (dict_get (annotations_buffer s) (s_id smp))
             = Inr answer
         \<and> ann = \<lparr>a_sample_id = s_id smp, a_annotator_id = annotator_id s,
                   a_anomaly_presence = fst answer, a_type_correctness = fst (snd answer),
                   a_localization_score = fst (snd (snd answer)),
                   a_grounded_reasoning = snd (snd (snd answer)),
                   a_timestamp = utcnow e\<rparr>
         \<and> r = Rerun \<and> files w' = files w \<and> ss w' = Initialized s'
         \<and> annotations_buffer s' = dict_set (s_id smp) ann (annotations_buffer s)
         \<and> dict_get (annotations_buffer s') (s_id smp) = Some ann
         \<and> (\<forall>k. k \<noteq> s_id smp
               \<longrightarrow> dict_get (annotations_buffer s') k = dict_get (annotations_buffer s) k)
         \<and> (if cursor s < int (length (sample_order s)) - 1
            then current_idx s' = cursor s + 1 \<and> \<not> review_mode s'
            else current_idx s' = cursor s \<and> review_mode s')
         \<and> sample_order s' = sample_order s \<and> total_samples s' = total_samples s"
proof -
  have pg: "page e u (files w) s = (r, w')"
    using assms(1,5) by (simp add: script_annotating)
  have ap: "annotation_page e u (files w) s = (r, w')"
    using pg assms(2,4,6) by (auto simp: page_annotating split: option.splits)
  from annotation_page_save [OF ap assms(6,4,3)]
  obtain smp answer where
    smp: "py_index (sample_order s) (cursor s) = Inr smp"
    and form: "annotation_form u (is_anomaly smp) (dict_get (annotations_buffer s) (s_id smp)) = Inr answer"
    and r: "r = Rerun"
    and w': "w' = \<lparr>files = files w, ss = Initialized (save_and_continue (utcnow e) smp (cursor s) answer
                       (s\<lparr>current_idx := cursor s\<rparr>))\<rparr>"
    by blast
  obtain p t l g where answer: "answer = (p, t, l, g)" by (cases answer) auto
  show ?thesis
    using smp form r assms(2)
    by (simp add: w' answer save_and_continue_def Let_def dict_get_set)
qed

theorem save_and_continue_writes_witness:
  "ss ex_world = Initialized ex_session \<and> \<not> review_mode ex_session
   \<and> sample_order ex_session \<noteq> [] \<and> click (ex_ui\<lparr>click := ClickSave\<rparr>) = ClickSave
   \<and> \<not> raised (fst (script ex_env (ex_ui\<lparr>click := ClickSave\<rparr>) ex_world))
   \<and> (\<exists>ann s'. ss (snd (script ex_env (ex_ui\<lparr>click := ClickSave\<rparr>) ex_world)) = Initialized s'
         \<and> annotations_buffer s' = dict_set (PStr ''S3'') ann (annotations_buffer ex_session)
         \<and> a_timestamp ann = utcnow ex_env
         \<and> current_idx s' = 1 \<and> \<not> review_mode s')"
proof -
  let ?u = "ex_ui\<lparr>click := ClickSave\<rparr>"
  have run: "script ex_env ?u ex_world
             = (fst (script ex_env ?u ex_world), snd (script ex_env ?u ex_world))" by simp
  have nr: "\<not> raised (fst (script ex_env ?u ex_world))" by (simp add: ex_save_run)
  have smp: "py_index (sample_order ex_session) (cursor ex_session) = Inr ex_s3"
    by (simp add: py_index_def cursor_def ex_session_def)
  have c: "cursor ex_session = 0" by (simp add: cursor_def ex_session_def)
  have len: "int (length (sample_order ex_session)) - 1 = 1" by (simp add: ex_session_def)
  have id3: "s_id ex_s3 = PStr ''S3''" by (simp add: ex_s3_def)
  from save_and_continue_writes [OF ex_world_ss ex_session_mode ex_session_queue ex_save_click run nr]
  obtain smp ann s' where
    "py_index (sample_order ex_session) (cursor ex_session) = Inr smp"
    and a: "a_timestamp ann = utcnow ex_env" "a_sample_id ann = s_id smp"
    and s': "ss (snd (script ex_env ?u ex_world)) = Initialized s'"
      "annotations_buffer s' = dict_set (s_id smp) ann (annotations_buffer ex_session)"
    and adv: "if cursor ex_session < int (length (sample_order ex_session)) - 1
              then current_idx s' = cursor ex_session + 1 \<and> \<not> review_mode s'
              else current_idx s' = cursor ex_session \<and> review_mode s'"
    by (elim exE conjE) (blast intro: annotation.select_convs)
  then have "smp = ex_s3" using smp by simp
  then have "annotations_buffer s' = dict_set (PStr ''S3'') ann (annotations_buffer ex_session)"
    using s'(2) by (simp add: id3)
  moreover have "current_idx s' = 1 \<and> \<not> review_mode s'"
    using adv by (simp add: c len)
  ultimately show ?thesis
    using ex_world_ss ex_session_mode ex_session_queue nr s'(1) a(1) by auto
qed

lemma py_index_member: "py_index xs i = Inr x \<Longrightarrow> x \<in> set xs"
  by (auto simp: py_index_def Let_def split: if_splits)

lemma py_index_nonempty: "py_index xs i = Inr x \<Longrightarrow> xs \<noteq> []"
  by (auto simp: py_index_def Let_def split: if_splits)


lemma list_index_None: "list_index xs v = None \<longleftrightarrow> v \<notin> set xs"
  by (induction xs) (auto split: option.splits)



lemma index_of_Inl: "v \<notin> set options \<Longrightarrow> index_of options v = Inl ValueError"
  by (simp add: index_of_def list_index_None [THEN iffD2])


lemma slider_text: "is_text val \<Longrightarrow> slider lo hi val pick = Inl StreamlitAPIException"
  by (cases val) (simp_all add: slider_def)

lemma annotation_form_no_anomaly:
  assumes "annotation_form u False existing = Inr (p, t, l, g)"
  shows "t = PStr ''N/A'' \<and> l = PStr ''N/A''"
  using assms by (auto simp: annotation_form_def then_do_def Let_def split: sum.splits)




text \<open>
  Claim C2. When the current sample's anomaly label is falsy (0, or absent), the annotation
  that Save records for it has \<open>type_correctness\<close> and \<open>localization_score\<close> equal to
  "N/A", whatever the annotator picked in the form and whatever the buffer held for the
  sample before.
\<close>

theorem conditional_field_law:
  assumes "ss w = Initialized s" and "\<not> review_mode s" and "click u = ClickSave"
    and "py_index (sample_order s) (cursor s) = Inr smp" and "\<not> is_anomaly smp"
    and "script e u w = (r, w')" and "\<not> raised r"
  shows "\<exists>s' ann. ss w' = Initialized s'
           \<and> dict_get (annotations_buffer s') (s_id smp) = Some ann
           \<and> a_type_correctness ann = PStr ''N/A''
           \<and> a_localization_score ann = PStr ''N/A''"
proof -
  have ap: "annotation_page e u (files w) s = (r, w')"
    using assms by (auto simp: script_annotating page_annotating split: option.splits)
  from annotation_page_save [OF ap assms(7,3) py_index_nonempty [OF assms(4)]] assms(4)
  obtain answer where
    form: "annotation_form u (is_anomaly smp) (dict_get (annotations_buffer s) (s_id smp)) = Inr answer"
    and w': "w' = \<lparr>files = files w, ss = Initialized (save_and_continue (utcnow e) smp (cursor s) answer
                       (s\<lparr>current_idx := cursor s\<rparr>))\<rparr>"
    by auto
  obtain p t l g where answer: "answer = (p, t, l, g)" by (cases answer) auto
  have "annotation_form u False (dict_get (annotations_buffer s) (s_id smp)) = Inr (p, t, l, g)"
    using form assms(5) by (simp add: answer)
  then have "t = PStr ''N/A'' \<and> l = PStr ''N/A''"
    by (rule annotation_form_no_anomaly)
  then show ?thesis
    by (simp add: w' answer save_and_continue_def Let_def dict_get_set)
qed

theorem conditional_field_law_witness:
  "ss (ex_world_with [ex_s2, ex_s1] 0 [(PStr ''S2'', ex_b2)])
     = Initialized (ex_session_with [ex_s2, ex_s1] 0 [(PStr ''S2'', ex_b2)])
   \<and> \<not> review_mode (ex_session_with [ex_s2, ex_s1] 0 [(PStr ''S2'', ex_b2)])
   \<and> click ex_picks = ClickSave
   \<and> py_index [ex_s2, ex_s1] 0 = Inr ex_s2 \<and> \<not> is_anomaly ex_s2
   \<and> \<not> raised (fst (script ex_env ex_picks (ex_world_with [ex_s2, ex_s1] 0 [(PStr ''S2'', ex_b2)])))
   \<and> (\<exists>s' ann. ss (snd (script ex_env ex_picks
                           (ex_world_with [ex_s2, ex_s1] 0 [(PStr ''S2'', ex_b2)]))) = Initialized s'
         \<and> dict_get (annotations_buffer s') (PStr ''S2'') = Some ann
         \<and> a_type_correctness ann = PStr ''N/A''
         \<and> a_localization_score ann = PStr ''N/A'')"
proof -
  let ?q = "[ex_s2, ex_s1]" and ?b = "[(PStr ''S2'', ex_b2)]"
  have h3: "click ex_picks = ClickSave" by (simp add: ex_picks_def)
  have h4: "py_index (sample_order (ex_session_with ?q 0 ?b)) (cursor (ex_session_with ?q 0 ?b)) = Inr ex_s2"
    by (simp add: ex_with_fields py_index_def cursor_def)
  have h4': "py_index ?q 0 = Inr ex_s2" by (simp add: py_index_def)
  have h5: "\<not> is_anomaly ex_s2" by (simp add: is_anomaly_def ex_s2_def)
  have nr: "\<not> raised (fst (script ex_env ex_picks (ex_world_with ?q 0 ?b)))"
    by (simp add: run_defs ex_defs Let_def)
  have id2: "s_id ex_s2 = PStr ''S2''" by (simp add: ex_s2_def)
  from conditional_field_law [where e = ex_env, OF ex_with_ss ex_with_mode h3 h4 h5 run_pair nr]
  show ?thesis using ex_with_ss ex_with_mode h3 h4' h5 nr unfolding id2 by simp
qed




text \<open>
  Claim C9. A click on Back in annotation mode never changes the buffer (nor the files);
  with the cursor at 0 the session state stays exactly as it was, and otherwise, when the
  run reaches the handler, the cursor goes down by one.
\<close>

theorem back_button:
  assumes "ss w = Initialized s" and "\<not> review_mode s" and "click u = ClickBack"
    and "script e u w = (r, w')"
  shows "files w' = files w
         \<and> (\<exists>s'. ss w' = Initialized s'
               \<and> annotations_buffer s' = annotations_buffer s
               \<and> (current_idx s = 0 \<longrightarrow> s' = s)
               \<and> (sample_order s \<noteq> [] \<and> \<not> raised r
                  \<longrightarrow> current_idx s' = (if 0 < cursor s then cursor s - 1 else cursor s)))"
proof -
  have pg: "page e u (files w) s = (r, w')" using assms by (simp add: script_annotating)
  have z: "current_idx s = 0 \<Longrightarrow> sample_order s \<noteq> [] \<Longrightarrow> s\<lparr>current_idx := cursor s\<rparr> = s"
    by (cases "sample_order s") (simp_all add: cursor_def)
  show ?thesis
  proof (cases "progress_bar s")
    case (Some err)
    then show ?thesis using pg assms(2,3) by (auto simp: page_annotating)
  next
    case None
    then have ap: "annotation_page e u (files w) s = (r, w')"
      using pg assms(2,3) by (simp add: page_annotating)
    show ?thesis
    proof (cases "sample_order s = []")
      case True
      then show ?thesis using ap by (auto simp: annotation_page_def)
    next
      case False
      show ?thesis
      proof (cases "raised r")
        case True
        from annotation_page_raised [OF ap True] z False show ?thesis using True by auto
      next
        case nr: False
        from annotation_page_back [OF ap nr assms(3) False] z False
        show ?thesis by (auto simp: cursor_def)
      qed
    qed
  qed
qed

theorem back_button_witness:
  "ss (ex_world_with [ex_s3, ex_s1] 0 []) = Initialized (ex_session_with [ex_s3, ex_s1] 0 [])
   \<and> \<not> review_mode (ex_session_with [ex_s3, ex_s1] 0 [])
   \<and> click (ex_ui\<lparr>click := ClickBack\<rparr>) = ClickBack
   \<and> current_idx (ex_session_with [ex_s3, ex_s1] 0 []) = 0
   \<and> ss (snd (script ex_env (ex_ui\<lparr>click := ClickBack\<rparr>) (ex_world_with [ex_s3, ex_s1] 0 [])))
       = Initialized (ex_session_with [ex_s3, ex_s1] 0 [])
   \<and> sample_order (ex_session_with [ex_s3, ex_s1] 1 []) \<noteq> []
   \<and> \<not> raised (fst (script ex_env (ex_ui\<lparr>click := ClickBack\<rparr>) (ex_world_with [ex_s3, ex_s1] 1 [])))
   \<and> (\<exists>s'. ss (snd (script ex_env (ex_ui\<lparr>click := ClickBack\<rparr>) (ex_world_with [ex_s3, ex_s1] 1 [])))
              = Initialized s'
         \<and> annotations_buffer s' = [] \<and> current_idx s' = 0)"
proof -
  let ?q = "[ex_s3, ex_s1]" and ?u = "ex_ui\<lparr>click := ClickBack\<rparr>"
  have h3: "click ?u = ClickBack" by simp
  have z: "current_idx (ex_session_with ?q 0 []) = 0" by (simp add: ex_with_fields)
  have ne: "sample_order (ex_session_with ?q 1 []) \<noteq> []" by (simp add: ex_with_fields)
  have nr: "\<not> raised (fst (script ex_env ?u (ex_world_with ?q 1 [])))"
    by (simp add: run_defs ex_defs Let_def)
  have c: "cursor (ex_session_with ?q 1 []) = 1" by (simp add: cursor_def ex_with_fields)
  from back_button [where e = ex_env, OF ex_with_ss [of ?q 0 "[]"] ex_with_mode h3 run_pair] z
  have first: "ss (snd (script ex_env ?u (ex_world_with ?q 0 []))) = Initialized (ex_session_with ?q 0 [])"
    by auto
  from back_button [where e = ex_env, OF ex_with_ss [of ?q 1 "[]"] ex_with_mode h3 run_pair] ne nr
  have second: "\<exists>s'. ss (snd (script ex_env ?u (ex_world_with ?q 1 []))) = Initialized s'
         \<and> annotations_buffer s' = [] \<and> current_idx s' = 0"
    by (auto simp: c ex_with_fields)
  show ?thesis using ex_with_ss ex_with_mode h3 z first ne nr second by blast
qed






section \<open>Review, final submit and the initial mode\<close>

lemmas ex_defs' = ex_a1_def ex_answered_def ex_defs ex_review_world_def ex_done_env_def ex_resume_env_def ex_resumed_def
lemmas init_defs = initialize_def load_samples_def load_annotations_def shuffle_def swap_def

text \<open>
  Claim C4, as stated, fails: the write is no atomic replacement. A dump that fails after
  the first record raises, and the annotator's file, a complete document before, is left
  as a partial text.
\<close>

theorem commit_not_atomic_counterexample:
  "raised (fst (script (ex_env\<lparr>disk_fault := DumpFails 1\<rparr>) (ex_ui\<lparr>click := ClickFinalSubmit\<rparr>)
                  ex_review_world))
   \<and> files ex_review_world (get_annotation_path ''A1'') = Some (Document [ex_a2])
   \<and> files (snd (script (ex_env\<lparr>disk_fault := DumpFails 1\<rparr>) (ex_ui\<lparr>click := ClickFinalSubmit\<rparr>)
                    ex_review_world)) (get_annotation_path ''A1'')
       = Some (Partial [ex_a2])"
  by (simp add: run_defs ex_defs' save_all_annotations_def dict_values_def Let_def)

text \<open>
  Claim C4, amended. Final submit opens the annotator's file for writing, which empties it,
  and dumps the buffer's values into it. With no failure the file holds exactly those
  values and the session state is cleared. If the write fails the exception leaves the
  session in review with its buffer as it was, so the submit can be repeated; the file is
  unchanged when the failure comes before it is opened, and otherwise holds only the part
  written before the failure.
\<close>

theorem final_submit:
  assumes "ss w = Initialized s" and "review_mode s" and "click u = ClickFinalSubmit"
    and "progress_bar s = None"
  shows "script e u w =
          (case disk_fault e of
             NoFault \<Rightarrow>
               (Stop, \<lparr>files = (files w)(get_annotation_path (annotator_id s)
                                  \<mapsto> Document (dict_values (annotations_buffer s))),
                       ss = Gate\<rparr>)
           | MakedirsFails \<Rightarrow> (Raised OSError, w)
           | OpenFails \<Rightarrow> (Raised OSError, w)
           | DumpFails k \<Rightarrow>
               (Raised OSError,
                \<lparr>files = (files w)(get_annotation_path (annotator_id s)
                           \<mapsto> Partial (take k (dict_values (annotations_buffer s)))),
                 ss = Initialized s\<rparr>))"
proof -
  have w: "\<lparr>files = files w, ss = Initialized s\<rparr> = w" using assms(1) by simp
  show ?thesis
    using assms
    by (simp add: script_def page_def review_all_offered_def review_page_def
        save_all_annotations_def Let_def w split: fault.splits)
qed

theorem final_submit_witness:
  "ss ex_review_world
     = Initialized (ex_session\<lparr>annotations_buffer := [(PStr ''S2'', ex_a2), (PStr ''S3'', ex_a3)],
                                review_mode := True\<rparr>)
   \<and> review_mode (ex_session\<lparr>annotations_buffer := [(PStr ''S2'', ex_a2), (PStr ''S3'', ex_a3)],
                               review_mode := True\<rparr>)
   \<and> click (ex_ui\<lparr>click := ClickFinalSubmit\<rparr>) = ClickFinalSubmit
   \<and> progress_bar (ex_session\<lparr>annotations_buffer := [(PStr ''S2'', ex_a2), (PStr ''S3'', ex_a3)],
                                review_mode := True\<rparr>) = None
   \<and> script ex_env (ex_ui\<lparr>click := ClickFinalSubmit\<rparr>) ex_review_world
       = (Stop, \<lparr>files = ex_files(get_annotation_path ''A1'' \<mapsto> Document [ex_a2, ex_a3]), ss = Gate\<rparr>)
   \<and> script (ex_env\<lparr>disk_fault := OpenFails\<rparr>) (ex_ui\<lparr>click := ClickFinalSubmit\<rparr>) ex_review_world
       = (Raised OSError, ex_review_world)"
proof -
  let ?s = "ex_session\<lparr>annotations_buffer := [(PStr ''S2'', ex_a2), (PStr ''S3'', ex_a3)],
                        review_mode := True\<rparr>"
  let ?u = "ex_ui\<lparr>click := ClickFinalSubmit\<rparr>"
  have h1: "ss ex_review_world = Initialized ?s" by (simp add: ex_review_world_def)
  have h2: "review_mode ?s" by simp
  have h3: "click ?u = ClickFinalSubmit" by simp
  have h4: "progress_bar ?s = None" by (simp add: progress_bar_def ex_session_def)
  have f: "files ex_review_world = ex_files" by (simp add: ex_review_world_def)
  have a: "annotator_id ?s = ''A1''" "dict_values (annotations_buffer ?s) = [ex_a2, ex_a3]"
    by (simp_all add: ex_session_def dict_values_def)
  have ok: "disk_fault ex_env = NoFault" by (simp add: ex_env_def)
  have bad: "disk_fault (ex_env\<lparr>disk_fault := OpenFails\<rparr>) = OpenFails" by simp
  from final_submit [OF h1 h2 h3 h4, of ex_env]
  have r1: "script ex_env ?u ex_review_world
       = (Stop, \<lparr>files = ex_files(get_annotation_path ''A1'' \<mapsto> Document [ex_a2, ex_a3]), ss = Gate\<rparr>)"
    by (simp add: ok f a dict_values_def)
  from final_submit [OF h1 h2 h3 h4, of "ex_env\<lparr>disk_fault := OpenFails\<rparr>"]
  have r2: "script (ex_env\<lparr>disk_fault := OpenFails\<rparr>) ?u ex_review_world = (Raised OSError, ex_review_world)"
    by (simp add: bad)
  show ?thesis using h1 h2 h3 h4 r1 r2 by simp
qed




text \<open>
  Claim C7 on a resumed session: the catalog has S1 and S2, and S2 was answered in an earlier
  session. The button that leads to review is offered at once, although the only queue
  item has no answer, and a click on it enters review. After S1 has been saved and picked
  again from the review list, every queue item has an answer and the button is not offered.
\<close>

theorem review_all_guard_counts_prior_answers:
  "initialize ex_resume_env ex_files ''A1'' = Inr ex_resumed
   \<and> review_all_offered ex_resumed \<and> \<not> all_answered ex_resumed
   \<and> script ex_resume_env (ex_ui\<lparr>click := ClickReviewAll\<rparr>)
        \<lparr>files = ex_files, ss = Initialized ex_resumed\<rparr>
       = (Rerun, \<lparr>files = ex_files, ss = Initialized (ex_resumed\<lparr>review_mode := True\<rparr>)\<rparr>)
   \<and> script ex_resume_env (ex_ui\<lparr>click := ClickReviewItem 0\<rparr>)
        (snd (script ex_resume_env (ex_ui\<lparr>click := ClickSave\<rparr>)
                \<lparr>files = ex_files, ss = Initialized ex_resumed\<rparr>))
       = (Rerun, \<lparr>files = ex_files, ss = Initialized ex_answered\<rparr>)
   \<and> all_answered ex_answered \<and> \<not> review_mode ex_answered
   \<and> \<not> review_all_offered ex_answered"
  by (simp add: run_defs init_defs ex_defs' ex_paths all_answered_def Let_def)

section \<open>Progress\<close>

lemma set_dict_keys_set: "set (dict_keys (dict_set k v d)) = insert k (set (dict_keys d))"
proof (induction d)
  case Nil
  then show ?case by (simp add: dict_keys_def)
next
  case (Cons kv d)
  then show ?case by (cases kv) (auto simp: dict_keys_def)
qed

lemma distinct_dict_set: "distinct (dict_keys d) \<Longrightarrow> distinct (dict_keys (dict_set k v d))"
proof (induction d)
  case Nil
  then show ?case by (simp add: dict_keys_def)
next
  case (Cons kv d)
  obtain k' v' where kv: "kv = (k', v')" by (cases kv)
  have "distinct (dict_keys d)" using Cons.prems by (simp add: dict_keys_def)
  then have IH: "distinct (dict_keys (dict_set k v d))" by (rule Cons.IH)
  show ?case
  proof (cases "k' = k")
    case True
    then show ?thesis using Cons.prems kv by (simp add: dict_keys_def)
  next
    case False
    have "k' \<notin> set (dict_keys (dict_set k v d))"
      using Cons.prems kv False by (simp add: set_dict_keys_set) (simp add: dict_keys_def)
    then show ?thesis using IH kv False by (simp add: dict_keys_def)
  qed
qed

lemma length_dict_set_ge: "length d \<le> length (dict_set k v d)"
  by (simp add: length_dict_set)

lemma foldl_dict_set_keys:
  "distinct (dict_keys d) \<Longrightarrow>
     distinct (dict_keys (foldl (\<lambda>d a. dict_set (f a) a d) d A))
     \<and> set (dict_keys (foldl (\<lambda>d a. dict_set (f a) a d) d A)) = set (dict_keys d) \<union> f ` set A"
proof (induction A arbitrary: d)
  case Nil
  then show ?case by simp
next
  case (Cons a A)
  from Cons.IH [OF distinct_dict_set [OF Cons.prems, of "f a" a]]
  show ?case by (auto simp: set_dict_keys_set)
qed

lemma initialize_inv:
  assumes "samples_file e = Some (Document C)" and "load_annotations st a = Inr A"
    and "a_sample_id ` set A \<subseteq> s_id ` set C" and "initialize e st a = Inr s"
  shows "session_inv C s"
proof -
  have d0: "distinct (dict_keys ([] :: (pyval, annotation) dict))" by (simp add: dict_keys_def)
  have s: "s = \<lparr>annotator_id = a,
               sample_order = shuffle (rng e) (filter (\<lambda>s. s_id s \<notin> set (map a_sample_id A)) C),
               total_samples = length C, current_idx = 0,
               annotations_buffer = foldl (\<lambda>d a. dict_set (a_sample_id a) a d) [] A,
               review_mode = False\<rparr>"
    using assms(1,2,4) by (simp add: initialize_def load_samples_def then_do_def)
  show ?thesis
    using foldl_dict_set_keys [OF d0, of a_sample_id A] assms(3)
    by (auto simp: s session_inv_def set_shuffle dict_keys_def)
qed

lemma inv_bound:
  assumes "session_inv C s"
  shows "completed s \<le> total_samples s"
proof -
  have "completed s = length (dict_keys (annotations_buffer s))"
    by (simp add: completed_def dict_keys_def)
  also have "\<dots> = card (set (dict_keys (annotations_buffer s)))"
    using assms by (simp add: session_inv_def distinct_card)
  also have "\<dots> \<le> card (s_id ` set C)"
    using assms by (intro card_mono) (auto simp: session_inv_def)
  also have "\<dots> \<le> card (set C)" by (rule card_image_le) simp
  also have "\<dots> \<le> length C" by (rule card_length)
  finally show ?thesis using assms by (simp add: session_inv_def)
qed

lemma save_and_continue_completed:
  "completed s \<le> completed (save_and_continue now smp idx answer (s\<lparr>current_idx := i\<rparr>))"
proof -
  obtain p t l g where answer: "answer = (p, t, l, g)" by (cases answer) auto
  show ?thesis
    by (simp add: answer save_and_continue_def Let_def completed_def length_dict_set_ge)
qed

lemma save_and_continue_inv:
  assumes "session_inv C s" and "smp \<in> set (sample_order s)"
  shows "session_inv C (save_and_continue now smp idx answer (s\<lparr>current_idx := i\<rparr>))"
proof -
  obtain p t l g where answer: "answer = (p, t, l, g)" by (cases answer) auto
  have "s_id smp \<in> s_id ` set C" using assms by (auto simp: session_inv_def)
  then show ?thesis
    using assms(1)
    by (auto simp: answer save_and_continue_def Let_def session_inv_def
        set_dict_keys_set distinct_dict_set)
qed

lemma annotation_page_step:
  assumes "annotation_page e u st s = (r, w')"
  shows "\<exists>s'. ss w' = Initialized s' \<and> completed s \<le> completed s'
              \<and> (session_inv C s \<longrightarrow> session_inv C s')"
proof -
  have cur: "completed (s\<lparr>current_idx := i\<rparr>) = completed s
             \<and> (session_inv C s \<longrightarrow> session_inv C (s\<lparr>current_idx := i\<rparr>))" for i
    by (simp add: session_inv_def completed_def)
  show ?thesis
  proof (cases "sample_order s = []")
    case True
    then show ?thesis using assms by (auto simp: annotation_page_def)
  next
    case False
    show ?thesis
    proof (cases "py_index (sample_order s) (cursor s)")
      case (Inl err)
      then show ?thesis using assms False cur by (auto simp: annotation_page_def Let_def)
    next
      case (Inr smp)
      have mem: "smp \<in> set (sample_order s)" using Inr by (rule py_index_member)
      have sv: "completed s \<le> completed (save_and_continue now smp idx answer (s\<lparr>current_idx := i\<rparr>))
                \<and> (session_inv C s
                   \<longrightarrow> session_inv C (save_and_continue now smp idx answer (s\<lparr>current_idx := i\<rparr>)))"
        for now idx answer i
        using save_and_continue_completed save_and_continue_inv [OF _ mem] by blast
      show ?thesis
        using assms False Inr cur sv
        by (auto simp: annotation_page_def Let_def split: if_splits sum.splits)
    qed
  qed
qed

lemma review_page_step:
  assumes "review_page e u st s = (r, w')"
  shows "ss w' = Gate
         \<or> (\<exists>s'. ss w' = Initialized s' \<and> completed s \<le> completed s'
                \<and> (session_inv C s \<longrightarrow> session_inv C s'))"
proof -
  have upd: "completed (s\<lparr>current_idx := i, review_mode := b\<rparr>) = completed s
             \<and> (session_inv C s \<longrightarrow> session_inv C (s\<lparr>current_idx := i, review_mode := b\<rparr>))"
    for i b
    by (simp add: session_inv_def completed_def)
  show ?thesis
    using assms upd
    by (cases "click u")
       (auto simp: review_page_def split: if_splits prod.splits option.splits)
qed

lemma page_step:
  assumes "page e u st s = (r, w')"
  shows "ss w' = Gate
         \<or> (\<exists>s'. ss w' = Initialized s' \<and> completed s \<le> completed s'
                \<and> (session_inv C s \<longrightarrow> session_inv C s'))"
proof -
  have upd: "completed (s\<lparr>review_mode := True\<rparr>) = completed s
             \<and> (session_inv C s \<longrightarrow> session_inv C (s\<lparr>review_mode := True\<rparr>))"
    by (simp add: session_inv_def completed_def)
  consider (a) err where "progress_bar s = Some err"
    | (b) "progress_bar s = None" "review_all_offered s \<and> click u = ClickReviewAll"
    | (c) "progress_bar s = None" "\<not> (review_all_offered s \<and> click u = ClickReviewAll)"
          "review_mode s"
    | (d) "progress_bar s = None" "\<not> (review_all_offered s \<and> click u = ClickReviewAll)"
          "\<not> review_mode s"
    by (cases "progress_bar s") auto
  then show ?thesis
  proof cases
    case a
    then show ?thesis using assms by (auto simp: page_def)
  next
    case b
    then show ?thesis using assms upd by (auto simp: page_def)
  next
    case c
    then have "review_page e u st s = (r, w')"
      using assms by (auto simp: page_def split: if_splits)
    from review_page_step [OF this] show ?thesis .
  next
    case d
    then have "annotation_page e u st s = (r, w')"
      using assms by (auto simp: page_def split: if_splits)
    from annotation_page_step [OF this] show ?thesis by blast
  qed
qed

lemma script_gate_no_click: "ss w = Gate \<Longrightarrow> click u = NoClick \<Longrightarrow> ss (snd (script e u w)) = Gate"
  by (simp add: script_def gate_def)

lemma interact_step:
  assumes "ss w = Initialized s"
  shows "ss (snd (interact e u w)) = Gate
         \<or> (\<exists>s'. ss (snd (interact e u w)) = Initialized s' \<and> completed s \<le> completed s'
                \<and> (session_inv C s \<longrightarrow> session_inv C s'))"
proof -
  obtain r w1 where run: "script e u w = (r, w1)" by (cases "script e u w") auto
  then have pg: "page e u (files w) s = (r, w1)" using assms by (simp add: script_annotating)
  from page_step [OF pg]
  have first: "ss w1 = Gate
               \<or> (\<exists>s1. ss w1 = Initialized s1 \<and> completed s \<le> completed s1
                      \<and> (session_inv C s \<longrightarrow> session_inv C s1))" .
  show ?thesis
  proof (cases "r = Rerun")
    case False
    then have "interact e u w = (r, w1)" by (cases r) (simp_all add: interact_def run)
    then show ?thesis using first by simp
  next
    case True
    let ?u = "u\<lparr>click := NoClick\<rparr>"
    have i: "interact e u w = script e ?u w1" by (simp add: interact_def run True)
    from first show ?thesis
    proof
      assume "ss w1 = Gate"
      then show ?thesis using script_gate_no_click [of w1 ?u e] by (simp add: i)
    next
      assume "\<exists>s1. ss w1 = Initialized s1 \<and> completed s \<le> completed s1
                   \<and> (session_inv C s \<longrightarrow> session_inv C s1)"
      then obtain s1 where s1: "ss w1 = Initialized s1" "completed s \<le> completed s1"
        "session_inv C s \<longrightarrow> session_inv C s1"
        by blast
      obtain r2 w2 where run2: "script e ?u w1 = (r2, w2)" by (cases "script e ?u w1") auto
      then have "page e ?u (files w1) s1 = (r2, w2)" using s1(1) by (simp add: script_annotating)
      from page_step [OF this, of C] s1(2,3) show ?thesis by (auto simp: i run2)
    qed
  qed
qed

lemma session_trace_step:
  assumes "ss w = Initialized s"
  shows "sorted (map completed (session_trace es w))
         \<and> (\<forall>s' \<in> set (session_trace es w).
               completed s \<le> completed s' \<and> (session_inv C s \<longrightarrow> session_inv C s'))"
  using assms
proof (induction es arbitrary: w s)
  case Nil
  then show ?case by simp
next
  case (Cons eu es)
  obtain e u where eu: "eu = (e, u)" by (cases eu)
  let ?w = "snd (interact e u w)"
  from interact_step [OF Cons.prems, of e u C]
  show ?case
  proof
    assume "ss ?w = Gate"
    then have "session_trace es ?w = []" by (cases es) auto
    then show ?thesis using Cons.prems by (simp add: eu)
  next
    assume "\<exists>s'. ss ?w = Initialized s' \<and> completed s \<le> completed s'
                 \<and> (session_inv C s \<longrightarrow> session_inv C s')"
    then obtain s' where s': "ss ?w = Initialized s'" "completed s \<le> completed s'"
      "session_inv C s \<longrightarrow> session_inv C s'"
      by blast
    from Cons.IH [OF s'(1)] s'(2,3) Cons.prems
    show ?thesis by (auto simp: eu)
  qed
qed

lemma ex_initialize: "initialize ex_env ex_files ''A1'' = Inr ex_session"
  by (simp add: initialize_def load_samples_def load_annotations_def shuffle_def swap_def
      then_do_def ex_defs ex_catalog_def ex_paths Let_def)

lemma ex_trace: "map completed (session_trace ex_clicks ex_world) = [1, 2, 2, 2, 3, 3, 3, 3]"
  by (simp add: ex_clicks_def interact_def completed_def run_defs ex_defs gate_def
      save_all_annotations_def dict_values_def Let_def)

text \<open>
  Claim C8, as stated, fails: nothing compares the stored annotations with the catalog. When
  the store holds answers for S2 and S3 and the catalog has only S1, the session is built
  with two completed samples against a total of one, and the progress display raises.
\<close>

theorem progress_exceeds_total_counterexample:
  "initialize ex_stale_env ex_stale_files ''A1'' = Inr ex_stale_session
   \<and> total_samples ex_stale_session < completed ex_stale_session
   \<and> script ex_stale_env ex_ui \<lparr>files = ex_stale_files, ss = Selected ''A1''\<rparr>
     = (Raised StreamlitAPIException,
        \<lparr>files = ex_stale_files, ss = Initialized ex_stale_session\<rparr>)"
  by (simp add: run_defs initialize_def load_samples_def load_annotations_def shuffle_def
      swap_def completed_def ex_defs Let_def)

text \<open>
  Claim C8, amended. Along every sequence of interactions, for as long as the session
  lasts, the number of completed samples (the size of the buffer) never decreases. It
  never exceeds \<open>total_samples\<close>, which stays the size of the catalog, provided every
  prior annotation the session was built from refers to a sample of the catalog.
\<close>

theorem progress_monotone:
  assumes "ss w = Initialized s0"
  shows "sorted (map completed (session_trace es w))
         \<and> (samples_file e0 = Some (Document C) \<and> load_annotations st a = Inr A
              \<and> a_sample_id ` set A \<subseteq> s_id ` set C \<and> initialize e0 st a = Inr s0
            \<longrightarrow> (\<forall>s \<in> set (session_trace es w).
                   completed s \<le> total_samples s \<and> total_samples s = length C))"
proof -
  have "\<forall>s \<in> set (session_trace es w). completed s \<le> total_samples s \<and> total_samples s = length C"
    if "samples_file e0 = Some (Document C)" "load_annotations st a = Inr A"
      "a_sample_id ` set A \<subseteq> s_id ` set C" "initialize e0 st a = Inr s0"
  proof -
    have inv: "session_inv C s0" using that by (rule initialize_inv)
    from session_trace_step [OF assms, of es C] inv
    show ?thesis using inv_bound by (auto simp: session_inv_def)
  qed
  then show ?thesis using session_trace_step [OF assms, of es C] by blast
qed

theorem progress_monotone_witness:
  "ss ex_world = Initialized ex_session
   \<and> samples_file ex_env = Some (Document ex_catalog)
   \<and> load_annotations ex_files ''A1'' = Inr [ex_a2]
   \<and> a_sample_id ` set [ex_a2] \<subseteq> s_id ` set ex_catalog
   \<and> initialize ex_env ex_files ''A1'' = Inr ex_session
   \<and> map completed (session_trace ex_clicks ex_world) = [1, 2, 2, 2, 3, 3, 3, 3]
   \<and> sorted (map completed (session_trace ex_clicks ex_world))
   \<and> list_all (\<lambda>s. completed s \<le> total_samples s \<and> total_samples s = length ex_catalog)
        (session_trace ex_clicks ex_world)"
proof -
  have h0: "ss ex_world = Initialized ex_session" by (simp add: ex_world_def)
  have h1: "samples_file ex_env = Some (Document ex_catalog)" by (simp add: ex_env_def)
  have h2: "load_annotations ex_files ''A1'' = Inr [ex_a2]"
    by (simp add: load_annotations_def ex_paths)
  have h3: "a_sample_id ` set [ex_a2] \<subseteq> s_id ` set ex_catalog"
    by (simp add: ex_catalog_def ex_s2_def ex_a2_def)
  from progress_monotone [OF h0, of ex_clicks ex_env ex_catalog ex_files "''A1''" "[ex_a2]"]
    h1 h2 h3 ex_initialize
  have "sorted (map completed (session_trace ex_clicks ex_world))
        \<and> list_all (\<lambda>s. completed s \<le> total_samples s \<and> total_samples s = length ex_catalog)
             (session_trace ex_clicks ex_world)"
    unfolding list_all_iff by blast
  then show ?thesis using h0 h1 h2 h3 ex_initialize ex_trace by simp
qed

end
